theory Spec2Isabelle
  imports Main "HOL-Library.AList"
begin

section \<open>Python values\<close>

text \<open>
  The payloads that flow through the kernel of \<^verbatim>\<open>simpy/events.py\<close>: Python values, among
  them references to event objects, exception objects and the ordered dictionaries a
  condition collects. An exception object carries its class name, its \<^verbatim>\<open>args\<close> and its
  \<^verbatim>\<open>__cause__\<close>. The module's sentinel \<^verbatim>\<open>PENDING = object()\<close> is kept apart from the
  payloads: an event's \<^verbatim>\<open>_value\<close> is either \<open>PENDING\<close> or \<open>Val v\<close>. A dictionary
  can hold whatever a \<^verbatim>\<open>_value\<close> holds, so its entries are slots.
\<close>

type_synonym ref = nat

datatype pyval =
    PyNone
  | PyInt int
  | PyStr string
  | PyTuple "pyval list"
  | PyObj ref
  | PyExc pyexc
  | PyDict "(ref \<times> slot) list"
and pyexc = Exc (etype: string) (eargs: "pyval list") (ecause: "pyexc option")
and slot = PENDING | Val pyval

text \<open>Exceptions raised by the module itself; the interpolated part of a message is left out.\<close>

definition ValueError :: "string \<Rightarrow> pyexc" where
  "ValueError msg = Exc ''ValueError'' [PyStr msg] None"

definition RuntimeError :: "string \<Rightarrow> pyexc" where
  "RuntimeError msg = Exc ''RuntimeError'' [PyStr msg] None"

definition AttributeError :: "string \<Rightarrow> pyexc" where
  "AttributeError msg = Exc ''AttributeError'' [PyStr msg] None"

definition TypeError :: "string \<Rightarrow> pyexc" where
  "TypeError msg = Exc ''TypeError'' [PyStr msg] None"

definition IndexError :: "string \<Rightarrow> pyexc" where
  "IndexError msg = Exc ''IndexError'' [PyStr msg] None"

text \<open>What Python raises when a recursion is deeper than its limit.\<close>

definition RecursionError :: pyexc where
  "RecursionError = RuntimeError ''maximum recursion depth exceeded''"

text \<open>\<^verbatim>\<open>class Interrupt(Exception)\<close>: \<^verbatim>\<open>Interrupt(cause)\<close> has \<^verbatim>\<open>args = (cause,)\<close>.\<close>

definition Interrupt :: "pyval \<Rightarrow> pyexc" where
  "Interrupt cause = Exc ''Interrupt'' [cause] None"

text \<open>The outcome of a call: the exception it raised, or the value it returned.\<close>

datatype 'a result = Raise pyexc | Return 'a

section \<open>Objects, environments and the store\<close>

definition URGENT :: int where
  "URGENT = 0"

definition NORMAL :: int where
  "NORMAL = 1"

text \<open>
  The continuations the module itself registers are bound methods: \<^verbatim>\<open>process._resume\<close>,
  \<^verbatim>\<open>condition._check\<close>, \<^verbatim>\<open>condition._collect_values\<close>, \<^verbatim>\<open>interruption._interrupt\<close> and
  \<^verbatim>\<open>event.trigger\<close>; two bound methods are equal when method and object are. A callable
  of the user is \<open>UserCallback\<close>.
\<close>

datatype callback =
    Resume ref
  | Check ref
  | CollectValues ref
  | InterruptCb ref
  | Trigger ref
  | UserCallback nat

datatype cls = C_Event | C_Timeout | C_Initialize | C_Interruption | C_Process
  | C_Condition | C_AllOf | C_AnyOf

text \<open>
  An event object is its attribute dictionary. \<open>callbacks = None\<close> is Python's
  \<^verbatim>\<open>callbacks is None\<close> (processed); \<open>ok\<close> and \<open>defused\<close> are \<open>None\<close> while the
  attribute has not been assigned (\<^verbatim>\<open>Event.__init__\<close> assigns neither); \<open>process\<close> is
  \<open>None\<close> until \<^verbatim>\<open>Interruption.__init__\<close> assigns it. The attributes of a subclass hold
  a default in objects of other classes. \<open>'g\<close> is the state of a generator object.
\<close>

record 'g event =
  cls :: cls
  env :: nat
  callbacks :: "callback list option"
  value' :: slot
  ok :: "bool option"
  defused :: "bool option"
  delay :: int
  process :: "ref option"
  generator :: "'g option"
  target :: pyval
  evaluate :: "ref list \<Rightarrow> int \<Rightarrow> bool"
  events :: "ref list"
  count :: int

text \<open>
  Modelled from the spec: the environment class lives in \<^verbatim>\<open>simpy/core.py\<close>, which is not
  part of the sources. Section 3.3 gives its attributes: \<open>now\<close>, \<open>active_process\<close>,
  \<open>queue\<close> and the insertion counter \<open>_eid\<close>. Times are Python integers here.
\<close>

record environment =
  now :: int
  active_proc :: "ref option"
  queue :: "(int \<times> int \<times> nat \<times> ref) list"
  eid :: nat

text \<open>
  The store: the event objects, addressed by their position (a new object takes the next
  position, so it is distinct from every older one), and the environments.
\<close>

record 'g store =
  heap :: "'g event list"
  envs :: "nat \<Rightarrow> environment"

definition lookup :: "'g store \<Rightarrow> ref \<Rightarrow> 'g event option" where
  "lookup s r = (if r < length (heap s) then Some (heap s ! r) else None)"

definition upd :: "ref \<Rightarrow> ('g event \<Rightarrow> 'g event) \<Rightarrow> 'g store \<Rightarrow> 'g store" where
  "upd r f s = s\<lparr>heap := (heap s)[r := f (heap s ! r)]\<rparr>"

definition alloc :: "'g event \<Rightarrow> 'g store \<Rightarrow> ref \<times> 'g store" where
  "alloc e s = (length (heap s), s\<lparr>heap := heap s @ [e]\<rparr>)"

text \<open>An object as \<^verbatim>\<open>object.__new__\<close> leaves it, before \<^verbatim>\<open>__init__\<close> assigns attributes.\<close>

definition blank :: "cls \<Rightarrow> nat \<Rightarrow> 'g event" where
  "blank c e = \<lparr>cls = c, env = e, callbacks = Some [], value' = PENDING, ok = None,
     defused = None, delay = 0, process = None, generator = None, target = PyNone,
     evaluate = (\<lambda>_ _. False), events = [], count = 0\<rparr>"

text \<open>
  Modelled from the spec: \<^verbatim>\<open>Environment.schedule\<close> of \<^verbatim>\<open>simpy/core.py\<close> is missing.
  Section 4.1: \<^verbatim>\<open>schedule(event, priority = NORMAL, delay = 0)\<close> appends \<^verbatim>\<open>event\<close> to the
  queue keyed by \<^verbatim>\<open>(now + delay, priority, insertion_id)\<close>.
\<close>

definition schedule :: "nat \<Rightarrow> ref \<Rightarrow> int \<Rightarrow> int \<Rightarrow> 'g store \<Rightarrow> 'g store" where
  "schedule e r priority dl s =
     (let en = envs s e in
      s\<lparr>envs := (envs s)(e := en\<lparr>queue := queue en @ [(now en + dl, priority, eid en, r)],
                                   eid := Suc (eid en)\<rparr>)\<rparr>)"

section \<open>Messages\<close>

text \<open>
  The errors of the module carry messages built with \<^verbatim>\<open>'... %s ...' % x\<close>. The text of a
  message is not modelled, but the interpolation can itself raise, and then that error is
  what the statement raises. \<open>format_raises depth s c\<close> is the error that the conversion
  \<open>c\<close> raises in store \<open>s\<close>, or \<open>None\<close> when it gives a string: \<open>Percent x\<close> is
  \<^verbatim>\<open>'%s' % x\<close>, which takes a tuple for the argument list and so wants it of length 1;
  \<open>Str x\<close> is \<^verbatim>\<open>str(x)\<close> and \<open>Repr x\<close> is \<^verbatim>\<open>repr(x)\<close>. A container shows its elements
  with \<^verbatim>\<open>repr\<close>, an exception its \<^verbatim>\<open>args\<close> (\<^verbatim>\<open>Interrupt.__str__\<close> reads \<^verbatim>\<open>args[0]\<close>), and an
  event is shown by \<^verbatim>\<open>Event.__repr__\<close> through the \<^verbatim>\<open>_desc\<close> of its class:
  \<^verbatim>\<open>Timeout._desc\<close> interpolates the value unless it is \<^verbatim>\<open>None\<close>, \<^verbatim>\<open>Process._desc\<close> reads the
  generator's name, \<^verbatim>\<open>Condition._desc\<close> shows the list of sub-events, \<^verbatim>\<open>Event._desc\<close> only
  the class name. \<open>format_step\<close> is one level of this, with \<open>rec\<close> for the conversions
  of the parts; \<open>depth\<close> bounds the nesting, as Python's recursion limit does.
\<close>

datatype conversion = Percent pyval | Str pyval | Repr pyval

fun first_error :: "pyexc option list \<Rightarrow> pyexc option" where
  "first_error [] = None"
| "first_error (None # rs) = first_error rs"
| "first_error (Some x # rs) = Some x"

definition format_step ::
  "(conversion \<Rightarrow> pyexc option) \<Rightarrow> 'g store \<Rightarrow> conversion \<Rightarrow> pyexc option" where
  "format_step rec s c =
     (case c of
        Percent v \<Rightarrow>
          (case v of
             PyTuple xs \<Rightarrow>
               (case xs of
                  [] \<Rightarrow> Some (TypeError ''not enough arguments for format string'')
                | [x] \<Rightarrow> rec (Str x)
                | _ \<Rightarrow> Some (TypeError ''not all arguments converted during string formatting''))
           | _ \<Rightarrow> rec (Str v))
      | Str v \<Rightarrow>
          (case v of
             PyExc e \<Rightarrow>
               if etype e = ''Interrupt''
               then (case eargs e of
                       [] \<Rightarrow> Some (IndexError ''tuple index out of range'')
                     | a # _ \<Rightarrow> rec (Repr a))
               else (case eargs e of
                       [] \<Rightarrow> None
                     | [a] \<Rightarrow> rec (Str a)
                     | _ \<Rightarrow> first_error (map (\<lambda>a. rec (Repr a)) (eargs e)))
           | _ \<Rightarrow> rec (Repr v))
      | Repr v \<Rightarrow>
          (case v of
             PyNone \<Rightarrow> None
           | PyInt _ \<Rightarrow> None
           | PyStr _ \<Rightarrow> None
           | PyTuple xs \<Rightarrow> first_error (map (\<lambda>x. rec (Repr x)) xs)
           | PyExc e \<Rightarrow> first_error (map (\<lambda>a. rec (Repr a)) (eargs e))
           | PyDict kvs \<Rightarrow>
               first_error (concat (map (\<lambda>(k, v).
                 [rec (Repr (PyObj k)),
                  (case v of PENDING \<Rightarrow> None | Val x \<Rightarrow> rec (Repr x))]) kvs))
           | PyObj r \<Rightarrow>
               (case lookup s r of
                  None \<Rightarrow> None
                | Some ob \<Rightarrow>
                    (case cls ob of
                       C_Timeout \<Rightarrow>
                         (case value' ob of
                            PENDING \<Rightarrow> None
                          | Val x \<Rightarrow> if x = PyNone then None
                                     else rec (Percent x))
                     | C_Process \<Rightarrow>
                         (case generator ob of
                            None \<Rightarrow> Some (AttributeError ''_generator'')
                          | Some _ \<Rightarrow> None)
                     | C_Condition \<Rightarrow>
                         first_error (map (\<lambda>r. rec (Repr (PyObj r))) (events ob))
                     | C_AllOf \<Rightarrow>
                         first_error (map (\<lambda>r. rec (Repr (PyObj r))) (events ob))
                     | C_AnyOf \<Rightarrow>
                         first_error (map (\<lambda>r. rec (Repr (PyObj r))) (events ob))
                     | _ \<Rightarrow> None))))"

primrec format_raises :: "nat \<Rightarrow> 'g store \<Rightarrow> conversion \<Rightarrow> pyexc option" where
  "format_raises 0 s c = Some RecursionError"
| "format_raises (Suc depth) s c = format_step (format_raises depth s) s c"

definition recursion_limit :: nat where
  "recursion_limit = 1000"

text \<open>
  \<^verbatim>\<open>raise X('... %s ...' % v)\<close> raises \<open>formatted s v X\<close>: the error of the interpolation
  when it has one, else \<open>X\<close>.
\<close>

definition formatted :: "'g store \<Rightarrow> pyval \<Rightarrow> pyexc \<Rightarrow> pyexc" where
  "formatted s v x =
     (case format_raises recursion_limit s (Percent v) of None \<Rightarrow> x | Some err \<Rightarrow> err)"

section \<open>Event\<close>

definition triggered :: "'g event \<Rightarrow> bool" where
  "triggered e = (value' e \<noteq> PENDING)"

definition processed :: "'g event \<Rightarrow> bool" where
  "processed e = (callbacks e = None)"



text \<open>
  \<^verbatim>\<open>Event.succeed(self, value=None)\<close>; the message of its error interpolates the event
  itself.
\<close>

definition Event_succeed :: "ref \<Rightarrow> pyval \<Rightarrow> 'g store \<Rightarrow> ref result \<times> 'g store" where
  "Event_succeed self v s =
     (case lookup s self of
        None \<Rightarrow> (Raise (AttributeError ''self''), s)
      | Some me \<Rightarrow>
          if value' me \<noteq> PENDING
          then (Raise (formatted s (PyObj self) (RuntimeError ''has already been triggered'')), s)
          else
            (let s1 = upd self (\<lambda>x. x\<lparr>ok := Some True\<rparr>) s;
                 s2 = upd self (\<lambda>x. x\<lparr>value' := Val v\<rparr>) s1
             in (Return self, schedule (env me) self NORMAL 0 s2)))"

text \<open>
  \<^verbatim>\<open>Event.fail(self, exception)\<close>. The argument is whatever the caller holds:
  \<^verbatim>\<open>Condition._check\<close> passes the content of another event's \<^verbatim>\<open>_value\<close>. The sentinel
  is a plain object, which \<^verbatim>\<open>%s\<close> always shows.
\<close>

definition is_exception :: "slot \<Rightarrow> bool" where
  "is_exception x = (case x of Val (PyExc _) \<Rightarrow> True | _ \<Rightarrow> False)"

definition Event_fail :: "ref \<Rightarrow> slot \<Rightarrow> 'g store \<Rightarrow> ref result \<times> 'g store" where
  "Event_fail self exception s =
     (case lookup s self of
        None \<Rightarrow> (Raise (AttributeError ''self''), s)
      | Some me \<Rightarrow>
          if value' me \<noteq> PENDING
          then (Raise (formatted s (PyObj self) (RuntimeError ''has already been triggered'')), s)
          else if \<not> is_exception exception
          then (case exception of
                  PENDING \<Rightarrow> (Raise (ValueError ''is not an exception.''), s)
                | Val v \<Rightarrow> (Raise (formatted s v (ValueError ''is not an exception.'')), s))
          else
            (let s1 = upd self (\<lambda>x. x\<lparr>ok := Some False\<rparr>) s;
                 s2 = upd self (\<lambda>x. x\<lparr>value' := exception\<rparr>) s1
             in (Return self, schedule (env me) self NORMAL 0 s2)))"

section \<open>Timeout, Initialize, Interruption\<close>

text \<open>\<^verbatim>\<open>Timeout.__init__(self, env, delay, value=None)\<close>\<close>

definition Timeout_init :: "nat \<Rightarrow> int \<Rightarrow> pyval \<Rightarrow> 'g store \<Rightarrow> ref result \<times> 'g store" where
  "Timeout_init e dl v s =
     (if dl < 0 then (Raise (ValueError ''Negative delay''), s)
      else
        (let (self, s1) = alloc ((blank C_Timeout e)
               \<lparr>callbacks := Some [], value' := Val v, delay := dl, ok := Some True\<rparr>) s
         in (Return self, schedule e self NORMAL dl s1)))"

text \<open>\<^verbatim>\<open>Initialize.__init__(self, env, process)\<close>\<close>

definition Initialize_init :: "nat \<Rightarrow> ref \<Rightarrow> 'g store \<Rightarrow> ref result \<times> 'g store" where
  "Initialize_init e proc s =
     (let (self, s1) = alloc ((blank C_Initialize e)
            \<lparr>callbacks := Some [Resume proc], value' := Val PyNone, ok := Some True\<rparr>) s
      in (Return self, schedule e self URGENT 0 s1))"

text \<open>
  \<^verbatim>\<open>Interruption.__init__(self, process, cause)\<close>: the attributes are assigned first, the
  two checks follow, and only then is \<^verbatim>\<open>self.process\<close> assigned and the event scheduled.
  The first message interpolates the process, which \<^verbatim>\<open>Process._desc\<close> shows by the name of
  its generator.
\<close>

definition Interruption_init :: "ref \<Rightarrow> pyval \<Rightarrow> 'g store \<Rightarrow> ref result \<times> 'g store" where
  "Interruption_init proc cause s =
     (case lookup s proc of
        None \<Rightarrow> (Raise (AttributeError ''env''), s)
      | Some p \<Rightarrow>
          (let (self, s1) = alloc ((blank C_Interruption (env p))
                 \<lparr>callbacks := Some [InterruptCb (length (heap s))],
                  value' := Val (PyExc (Interrupt cause)), ok := Some False,
                  defused := Some True\<rparr>) s
           in if value' (heap s1 ! proc) \<noteq> PENDING
              then (Raise (RuntimeError ''has terminated and cannot be interrupted.''), s1)
              else if Some proc = active_proc (envs s1 (env (heap s1 ! self)))
              then (Raise (RuntimeError ''A process is not allowed to interrupt itself.''), s1)
              else
                (let s2 = upd self (\<lambda>x. x\<lparr>process := Some proc\<rparr>) s1
                 in (Return self, schedule (env (heap s2 ! self)) self URGENT 0 s2))))"

section \<open>Process\<close>

text \<open>
  A generator object is a resumable computation. Its state is a value of type \<open>'g\<close>, and
  the process functions of the user are a parameter \<open>G\<close> of the driver: \<open>G g input s\<close>
  runs the generator in state \<open>g\<close> on \<^verbatim>\<open>send(v)\<close> or \<^verbatim>\<open>throw(e)\<close> up to its next
  \<^verbatim>\<open>yield\<close> or to its end, in store \<open>s\<close> (the body may create and trigger events), and
  gives what it yielded or raised (a \<^verbatim>\<open>return\<close> raises \<^verbatim>\<open>StopIteration\<close>), the generator's
  next state and the store it leaves.
\<close>

datatype gen_input = Send slot | Throw pyexc

datatype gen_result = Yielded pyval | Raised pyexc

type_synonym 'g gen_sem = "'g \<Rightarrow> gen_input \<Rightarrow> 'g store \<Rightarrow> gen_result \<times> 'g \<times> 'g store"

text \<open>
  \<^verbatim>\<open>Process.__init__(self, env, generator)\<close>. The argument is any Python object:
  \<open>Inr g\<close> is a generator object, \<open>Inl v\<close> any other value, so \<^verbatim>\<open>isgenerator\<close> is the
  case distinction. The message of the error interpolates the argument.
\<close>

definition isgenerator :: "pyval + 'g \<Rightarrow> bool" where
  "isgenerator x = (case x of Inl _ \<Rightarrow> False | Inr _ \<Rightarrow> True)"

definition Process_init :: "nat \<Rightarrow> pyval + 'g \<Rightarrow> 'g store \<Rightarrow> ref result \<times> 'g store" where
  "Process_init e gen s =
     (if \<not> isgenerator gen
      then (case gen of
              Inl v \<Rightarrow> (Raise (formatted s v (ValueError ''is not a generator.'')), s)
            | Inr _ \<Rightarrow> (Raise (ValueError ''is not a generator.''), s))
      else
        (let (self, s1) = alloc ((blank C_Process e)
               \<lparr>callbacks := Some [], value' := PENDING,
                generator := (case gen of Inl _ \<Rightarrow> None | Inr g \<Rightarrow> Some g)\<rparr>) s
         in case Initialize_init e self s1 of
              (Raise x, s2) \<Rightarrow> (Raise x, s2)
            | (Return i, s2) \<Rightarrow> (Return self, upd self (\<lambda>x. x\<lparr>target := PyObj i\<rparr>) s2)))"

text \<open>\<^verbatim>\<open>Process.is_alive\<close>\<close>

definition is_alive :: "'g event \<Rightarrow> bool" where
  "is_alive p = (value' p = PENDING)"

text \<open>\<^verbatim>\<open>Process.interrupt(self, cause=None)\<close>\<close>

definition Process_interrupt :: "ref \<Rightarrow> pyval \<Rightarrow> 'g store \<Rightarrow> unit result \<times> 'g store" where
  "Process_interrupt self cause s =
     (case Interruption_init self cause s of
        (Raise x, s1) \<Rightarrow> (Raise x, s1)
      | (Return _, s1) \<Rightarrow> (Return (), s1))"

text \<open>
  \<^verbatim>\<open>Process._resume(self, event)\<close>. \<open>get_next\<close> is the body of the first \<^verbatim>\<open>try\<close>: every
  exception raised there, by the generator or by an attribute access, reaches the two
  \<^verbatim>\<open>except\<close> clauses. \<^verbatim>\<open>generator.throw\<close> refuses a value that is not an exception with
  \<^verbatim>\<open>TypeError\<close>, without running the generator.
\<close>

definition call_generator ::
  "'g gen_sem \<Rightarrow> ref \<Rightarrow> gen_input \<Rightarrow> 'g store \<Rightarrow> gen_result \<times> 'g store" where
  "call_generator G self inp s =
     (case lookup s self of
        None \<Rightarrow> (Raised (AttributeError ''_generator''), s)
      | Some me \<Rightarrow>
          (case generator me of
             None \<Rightarrow> (Raised (AttributeError ''_generator''), s)
           | Some g \<Rightarrow>
               (let (r, g', s1) = G g inp s
                in (r, upd self (\<lambda>x. x\<lparr>generator := Some g'\<rparr>) s1))))"

definition get_next :: "'g gen_sem \<Rightarrow> ref \<Rightarrow> ref \<Rightarrow> 'g store \<Rightarrow> gen_result \<times> 'g store" where
  "get_next G self event s =
     (case lookup s event of
        None \<Rightarrow> (Raised (AttributeError ''ok''), s)
      | Some ev \<Rightarrow>
          (case ok ev of
             None \<Rightarrow> (Raised (AttributeError ''ok''), s)
           | Some True \<Rightarrow> call_generator G self (Send (value' ev)) s
           | Some False \<Rightarrow>
               (let s1 = upd event (\<lambda>x. x\<lparr>defused := Some True\<rparr>) s
                in case value' (heap s1 ! event) of
                     Val (PyExc x) \<Rightarrow> call_generator G self (Throw x) s1
                   | _ \<Rightarrow> (Raised (TypeError ''exceptions must derive from BaseException''), s1))))"

text \<open>The two statements after the loop: \<^verbatim>\<open>self._target = event\<close>, \<^verbatim>\<open>self.env._active_proc = None\<close>.\<close>

definition set_active :: "nat \<Rightarrow> ref option \<Rightarrow> 'g store \<Rightarrow> 'g store" where
  "set_active e a s = s\<lparr>envs := (envs s)(e := (envs s e)\<lparr>active_proc := a\<rparr>)\<rparr>"

definition leave_loop :: "ref \<Rightarrow> pyval \<Rightarrow> 'g store \<Rightarrow> 'g store" where
  "leave_loop self event s =
     (let s1 = upd self (\<lambda>x. x\<lparr>target := event\<rparr>) s
      in set_active (env (heap s1 ! self)) None s1)"

text \<open>
  The exception classes are the user's, like the process functions: \<open>K c args\<close> is what
  calling the class \<open>c\<close> with the arguments \<open>args\<close> does, which is to raise or to give a
  new instance of \<open>c\<close>, of which \<open>K\<close> returns the \<^verbatim>\<open>args\<close>. The built-in classes keep
  the arguments they are called with.
\<close>

type_synonym class_sem = "string \<Rightarrow> pyval list \<Rightarrow> pyval list result"

definition builtin_classes :: class_sem where
  "builtin_classes c args = Return args"

text \<open>
  The \<^verbatim>\<open>while True\<close> loop. It runs again when the generator yields an event that is already
  processed, so it need not end; \<open>fuel\<close> bounds the iterations and \<open>None\<close> says that the
  loop was still running when the fuel ran out. In the second \<^verbatim>\<open>except\<close> clause the call
  \<^verbatim>\<open>type(e)(*e.args)\<close> comes after \<^verbatim>\<open>self.ok = False\<close>, and an error it raises leaves the
  method there. The message for a yielded value without \<^verbatim>\<open>callbacks\<close> interpolates the
  value; the text that \<^verbatim>\<open>_describe_frame\<close> reads from the source file is not part of the
  error's model.
\<close>

fun resume_loop ::
  "'g gen_sem \<Rightarrow> class_sem \<Rightarrow> nat \<Rightarrow> ref \<Rightarrow> ref \<Rightarrow> 'g store \<Rightarrow>
     (unit result \<times> 'g store) option" where
  "resume_loop G K 0 self event s = None"
| "resume_loop G K (Suc fuel) self event s =
     (case get_next G self event s of
        (Raised e, s1) \<Rightarrow>
          if etype e = ''StopIteration''
          then
            (let s2 = upd self (\<lambda>x. x\<lparr>ok := Some True\<rparr>) s1;
                 s3 = upd self (\<lambda>x. x\<lparr>value' :=
                        Val (if length (eargs e) \<noteq> 0 then eargs e ! 0 else PyNone)\<rparr>) s2;
                 s4 = schedule (env (heap s3 ! self)) self NORMAL 0 s3
             in Some (Return (), leave_loop self PyNone s4))
          else
            (let s2 = upd self (\<lambda>x. x\<lparr>ok := Some False\<rparr>) s1
             in case K (etype e) (eargs e) of
                  Raise x \<Rightarrow> Some (Raise x, s2)
                | Return args \<Rightarrow>
                    (let s3 = upd self (\<lambda>x. x\<lparr>value' := Val (PyExc (Exc (etype e) args None))\<rparr>) s2;
                         s4 = upd self (\<lambda>x. x\<lparr>value' :=
                                Val (PyExc (Exc (etype e) args (Some e)))\<rparr>) s3;
                         s5 = schedule (env (heap s4 ! self)) self NORMAL 0 s4
                     in Some (Return (), leave_loop self PyNone s5)))
      | (Yielded y, s1) \<Rightarrow>
          (case y of
             PyObj r \<Rightarrow>
               (case lookup s1 r of
                  None \<Rightarrow> Some (Raise (formatted s1 y (RuntimeError ''Invalid yield value'')), s1)
                | Some ev \<Rightarrow>
                    (case callbacks ev of
                       Some cbs \<Rightarrow>
                         Some (Return (), leave_loop self (PyObj r)
                           (upd r (\<lambda>x. x\<lparr>callbacks := Some (cbs @ [Resume self])\<rparr>) s1))
                     | None \<Rightarrow> resume_loop G K fuel self r s1))
           | _ \<Rightarrow> Some (Raise (formatted s1 y (RuntimeError ''Invalid yield value'')), s1)))"

definition Process_resume ::
  "'g gen_sem \<Rightarrow> class_sem \<Rightarrow> nat \<Rightarrow> ref \<Rightarrow> ref \<Rightarrow> 'g store \<Rightarrow>
     (unit result \<times> 'g store) option" where
  "Process_resume G K fuel self event s =
     (case lookup s self of
        None \<Rightarrow> Some (Raise (AttributeError ''self''), s)
      | Some me \<Rightarrow> resume_loop G K fuel self event (set_active (env me) (Some self) s))"


section \<open>Condition\<close>

text \<open>
  An \<^verbatim>\<open>OrderedDict\<close> keyed by event objects is an association list with distinct keys, in
  insertion order: \<^verbatim>\<open>d[k] = v\<close> is \<^const>\<open>AList.update\<close>, which replaces the value of a
  key that is present where it stands and appends a new key at the end.
\<close>

type_synonym odict = "(ref \<times> slot) list"

definition odict_update :: "odict \<Rightarrow> odict \<Rightarrow> odict" where
  "odict_update d other = fold (\<lambda>(k, v). AList.update k v) other d"

text \<open>\<^verbatim>\<open>Condition.all_events(events, count)\<close> and \<^verbatim>\<open>Condition.any_events(events, count)\<close>\<close>

definition Condition_all_events :: "ref list \<Rightarrow> int \<Rightarrow> bool" where
  "Condition_all_events evs cnt = (int (length evs) = cnt)"

definition Condition_any_events :: "ref list \<Rightarrow> int \<Rightarrow> bool" where
  "Condition_any_events evs cnt = (cnt > 0 \<or> length evs = 0)"

text \<open>\<^verbatim>\<open>Condition._check(self, event)\<close>\<close>

definition Condition_check :: "ref \<Rightarrow> ref \<Rightarrow> 'g store \<Rightarrow> unit result \<times> 'g store" where
  "Condition_check self event s =
     (case lookup s self of
        None \<Rightarrow> (Raise (AttributeError ''self''), s)
      | Some me \<Rightarrow>
          if value' me \<noteq> PENDING then (Return (), s)
          else
            (let s1 = upd self (\<lambda>x. x\<lparr>count := count x + 1\<rparr>) s
             in case lookup s1 event of
                  None \<Rightarrow> (Raise (AttributeError ''ok''), s1)
                | Some ev \<Rightarrow>
                    (case ok ev of
                       None \<Rightarrow> (Raise (AttributeError ''ok''), s1)
                     | Some False \<Rightarrow>
                         (let s2 = upd event (\<lambda>x. x\<lparr>defused := Some True\<rparr>) s1
                          in case Event_fail self (value' (heap s2 ! event)) s2 of
                               (Raise x, s3) \<Rightarrow> (Raise x, s3)
                             | (Return _, s3) \<Rightarrow> (Return (), s3))
                     | Some True \<Rightarrow>
                         (let c = heap s1 ! self
                          in if evaluate c (events c) (count c)
                             then (case Event_succeed self PyNone s1 of
                                     (Raise x, s3) \<Rightarrow> (Raise x, s3)
                                   | (Return _, s3) \<Rightarrow> (Return (), s3))
                             else (Return (), s1)))))"

text \<open>
  \<^verbatim>\<open>Condition.__init__(self, env, evaluate, events)\<close>; its first loop compares the
  environments, its second loop checks or subscribes to each event, and the last statement
  appends \<^verbatim>\<open>self._collect_values\<close>. \<open>k\<close> is the class being instantiated.
\<close>

fun same_env_loop :: "ref \<Rightarrow> ref list \<Rightarrow> 'g store \<Rightarrow> unit result" where
  "same_env_loop self [] s = Return ()"
| "same_env_loop self (event # rest) s =
     (case lookup s event of
        None \<Rightarrow> Raise (AttributeError ''env'')
      | Some ev \<Rightarrow>
          if env (heap s ! self) \<noteq> env ev
          then Raise (ValueError ''It is not allowed to mix events from different environments'')
          else same_env_loop self rest s)"

fun check_loop :: "ref \<Rightarrow> ref list \<Rightarrow> 'g store \<Rightarrow> unit result \<times> 'g store" where
  "check_loop self [] s = (Return (), s)"
| "check_loop self (event # rest) s =
     (case lookup s event of
        None \<Rightarrow> (Raise (AttributeError ''callbacks''), s)
      | Some ev \<Rightarrow>
          (case callbacks ev of
             None \<Rightarrow>
               (case Condition_check self event s of
                  (Raise x, s1) \<Rightarrow> (Raise x, s1)
                | (Return _, s1) \<Rightarrow> check_loop self rest s1)
           | Some cbs \<Rightarrow>
               check_loop self rest (upd event (\<lambda>x. x\<lparr>callbacks := Some (cbs @ [Check self])\<rparr>) s)))"

definition Condition_init ::
  "cls \<Rightarrow> nat \<Rightarrow> (ref list \<Rightarrow> int \<Rightarrow> bool) \<Rightarrow> ref list \<Rightarrow> 'g store \<Rightarrow> ref result \<times> 'g store" where
  "Condition_init k e ev_fn evs s =
     (let (self, s1) = alloc (blank k e) s;
          s2 = upd self (\<lambda>x. x\<lparr>evaluate := ev_fn, events := evs, count := 0\<rparr>) s1
      in case same_env_loop self evs s2 of
           Raise x \<Rightarrow> (Raise x, s2)
         | Return _ \<Rightarrow>
             (case check_loop self evs s2 of
                (Raise x, s3) \<Rightarrow> (Raise x, s3)
              | (Return _, s3) \<Rightarrow>
                  (case callbacks (heap s3 ! self) of
                     None \<Rightarrow> (Raise (AttributeError ''append''), s3)
                   | Some cbs \<Rightarrow>
                       (Return self,
                        upd self (\<lambda>x. x\<lparr>callbacks := Some (cbs @ [CollectValues self])\<rparr>) s3))))"

text \<open>\<^verbatim>\<open>AllOf.__init__(self, env, events)\<close> and \<^verbatim>\<open>AnyOf.__init__(self, env, events)\<close>\<close>

definition AllOf_init :: "nat \<Rightarrow> ref list \<Rightarrow> 'g store \<Rightarrow> ref result \<times> 'g store" where
  "AllOf_init e evs s = Condition_init C_AllOf e Condition_all_events evs s"

definition AnyOf_init :: "nat \<Rightarrow> ref list \<Rightarrow> 'g store \<Rightarrow> ref result \<times> 'g store" where
  "AnyOf_init e evs s = Condition_init C_AnyOf e Condition_any_events evs s"

text \<open>
  \<^verbatim>\<open>Condition._get_values(self)\<close>. \<^verbatim>\<open>isinstance(event, Condition)\<close> holds for the three
  condition classes. The method calls itself on nested conditions; Python ends a recursion
  deeper than its limit with \<^verbatim>\<open>RuntimeError\<close>, and \<open>depth\<close> is the number of frames left.
\<close>

definition is_condition :: "'g event \<Rightarrow> bool" where
  "is_condition e = (cls e = C_Condition \<or> cls e = C_AllOf \<or> cls e = C_AnyOf)"

text \<open>The body of its loop, with \<open>rec\<close> for the call of the method on a nested condition.\<close>

definition get_values_step ::
  "(ref \<Rightarrow> odict result) \<Rightarrow> 'g store \<Rightarrow> ref \<Rightarrow> odict result \<Rightarrow> odict result" where
  "get_values_step rec s event acc =
     (case acc of
        Raise x \<Rightarrow> Raise x
      | Return vals \<Rightarrow>
          (case lookup s event of
             None \<Rightarrow> Raise (AttributeError ''callbacks'')
           | Some ev \<Rightarrow>
               if is_condition ev
               then (case rec event of
                       Raise x \<Rightarrow> Raise x
                     | Return d \<Rightarrow> Return (odict_update vals d))
               else if callbacks ev = None
               then Return (AList.update event (value' ev) vals)
               else Return vals))"

primrec Condition_get_values :: "nat \<Rightarrow> 'g store \<Rightarrow> ref \<Rightarrow> odict result" where
  "Condition_get_values 0 s self = Raise RecursionError"
| "Condition_get_values (Suc depth) s self =
     (case lookup s self of
        None \<Rightarrow> Raise (AttributeError ''_events'')
      | Some me \<Rightarrow>
          fold (get_values_step (Condition_get_values depth s) s) (events me) (Return []))"

text \<open>\<^verbatim>\<open>Condition._collect_values(self, event)\<close>\<close>

definition Condition_collect_values ::
  "nat \<Rightarrow> ref \<Rightarrow> ref \<Rightarrow> 'g store \<Rightarrow> unit result \<times> 'g store" where
  "Condition_collect_values depth self event s =
     (case lookup s event of
        None \<Rightarrow> (Raise (AttributeError ''ok''), s)
      | Some ev \<Rightarrow>
          (case ok ev of
             None \<Rightarrow> (Raise (AttributeError ''ok''), s)
           | Some False \<Rightarrow> (Return (), s)
           | Some True \<Rightarrow>
               (let s1 = upd self (\<lambda>x. x\<lparr>value' := Val (PyDict [])\<rparr>) s
                in case Condition_get_values depth s1 self of
                     Raise x \<Rightarrow> (Raise x, s1)
                   | Return d \<Rightarrow>
                       (Return (),
                        upd self (\<lambda>x. x\<lparr>value' := Val (PyDict (odict_update [] d))\<rparr>) s1))))"

section \<open>Predicates of the statements\<close>

text \<open>
  What a theorem about the driver asks of the user's process functions: running a generator
  keeps a property \<open>P\<close> of the store. The two properties used are that the object \<open>r\<close>
  exists with its \<^verbatim>\<open>defused\<close> flag set, and that it exists with its \<^verbatim>\<open>_value\<close> pending.
\<close>

definition gen_preserves :: "'g gen_sem \<Rightarrow> ('g store \<Rightarrow> bool) \<Rightarrow> bool" where
  "gen_preserves G P = (\<forall>g i t. P t \<longrightarrow> P (snd (snd (G g i t))))"

definition defused_in :: "ref \<Rightarrow> 'g store \<Rightarrow> bool" where
  "defused_in r s = (r < length (heap s) \<and> defused (heap s ! r) = Some True)"

definition alive_in :: "ref \<Rightarrow> 'g store \<Rightarrow> bool" where
  "alive_in r s = (r < length (heap s) \<and> value' (heap s ! r) = PENDING)"

text \<open>
  The state of \<^verbatim>\<open>_target\<close> after a resume step: \<^verbatim>\<open>None\<close> for a process that is not alive;
  for one that is alive, an event whose last callback is the process's \<^verbatim>\<open>_resume\<close>.
\<close>

definition target_settled :: "ref \<Rightarrow> 'g store \<Rightarrow> bool" where
  "target_settled self s =
     (self < length (heap s) \<and>
      (\<not> is_alive (heap s ! self) \<longrightarrow> target (heap s ! self) = PyNone) \<and>
      (is_alive (heap s ! self) \<longrightarrow>
         (\<exists>r ev cbs. target (heap s ! self) = PyObj r \<and> lookup s r = Some ev \<and>
            callbacks ev = Some (cbs @ [Resume self]))))"

text \<open>
  What an operation keeps of the event \<open>r\<close> between the stores \<open>s\<close> and \<open>s'\<close>: the
  event is still there with the value and the \<open>ok\<close> flag it had, and processed if it was.
\<close>

definition outcome_kept :: "ref \<Rightarrow> 'g store \<Rightarrow> 'g store \<Rightarrow> bool" where
  "outcome_kept r s s' =
     (r < length (heap s') \<and> value' (heap s' ! r) = value' (heap s ! r) \<and>
      ok (heap s' ! r) = ok (heap s ! r) \<and>
      (processed (heap s ! r) \<longrightarrow> processed (heap s' ! r)))"

text \<open>
  The spec's reading of \<^verbatim>\<open>collect_values\<close> (section 4.4), to compare the code with: walk the
  sub-event list; a sub-event that is processed contributes itself, one that is not
  contributes nothing, and one that is itself a condition contributes what its own
  sub-events contribute. \<open>spec_contributors s es ls\<close>: the sub-events \<open>es\<close> contribute, in
  this order, the events \<open>ls\<close>. The keys of an insertion-ordered mapping filled in the
  order \<open>ls\<close> are \<open>insertion_order ls\<close>: each key once, where it came first.
\<close>

inductive spec_contributors :: "'g store \<Rightarrow> ref list \<Rightarrow> ref list \<Rightarrow> bool" for s :: "'g store" where
  no_events: "spec_contributors s [] []"
| processed_event:
    "lookup s e = Some ev \<Longrightarrow> \<not> is_condition ev \<Longrightarrow> processed ev \<Longrightarrow>
     spec_contributors s es ls \<Longrightarrow> spec_contributors s (e # es) (e # ls)"
| waiting_event:
    "lookup s e = Some ev \<Longrightarrow> \<not> is_condition ev \<Longrightarrow> \<not> processed ev \<Longrightarrow>
     spec_contributors s es ls \<Longrightarrow> spec_contributors s (e # es) ls"
| nested_condition:
    "lookup s e = Some ev \<Longrightarrow> is_condition ev \<Longrightarrow> spec_contributors s (events ev) ls1 \<Longrightarrow>
     spec_contributors s es ls2 \<Longrightarrow> spec_contributors s (e # es) (ls1 @ ls2)"

definition insert_key :: "ref \<Rightarrow> ref list \<Rightarrow> ref list" where
  "insert_key k ks = (if k \<in> set ks then ks else ks @ [k])"

definition insertion_order :: "ref list \<Rightarrow> ref list" where
  "insertion_order ls = fold insert_key ls []"

definition entry_of :: "'g store \<Rightarrow> ref \<Rightarrow> ref \<times> slot" where
  "entry_of s k = (k, value' (heap s ! k))"

section \<open>Example stores\<close>

text \<open>Concrete stores on which the theorems below are evaluated.\<close>

definition env0 :: environment where
  "env0 = \<lparr>now = 5, active_proc = None, queue = [], eid = 0\<rparr>"

definition store0 :: "nat store" where
  "store0 = \<lparr>heap = [], envs = (\<lambda>_. env0)\<rparr>"


text \<open>Process 0 is alive and active, process 1 has terminated, process 2 is alive.\<close>

definition store_procs :: "nat store" where
  "store_procs =
     \<lparr>heap = [(blank C_Process 0)\<lparr>generator := Some 0\<rparr>,
              (blank C_Process 0)\<lparr>generator := Some 0, value' := Val PyNone, ok := Some True\<rparr>,
              (blank C_Process 0)\<lparr>generator := Some 0\<rparr>],
      envs = (\<lambda>_. env0\<lparr>active_proc := Some 0\<rparr>)\<rparr>"

text \<open>
  Events 0 and 1 are processed, 1 has failed; condition 2 is pending, condition 3 is
  triggered.
\<close>

definition store_cond :: "nat store" where
  "store_cond =
     \<lparr>heap = [(blank C_Event 0)\<lparr>value' := Val (PyInt 1), ok := Some True, callbacks := None\<rparr>,
              (blank C_Event 0)\<lparr>value' := Val (PyExc (ValueError ''boom'')), ok := Some False,
                                callbacks := None\<rparr>,
              (blank C_Condition 0)\<lparr>evaluate := Condition_all_events, events := [0, 1],
                                    callbacks := Some [CollectValues 2]\<rparr>,
              (blank C_Condition 0)\<lparr>evaluate := Condition_any_events, events := [0, 1],
                                    callbacks := Some [CollectValues 3], count := 1,
                                    value' := Val PyNone, ok := Some True\<rparr>],
      envs = (\<lambda>_. env0)\<rparr>"

text \<open>
  A process function in the manner of the spec's scenarios: the generator (state 0) creates
  a timeout of 10 and yields it, and returns \<^verbatim>\<open>'done'\<close> when it is resumed (state 1); it
  catches nothing, so an error thrown into it comes out again.
\<close>

definition gen_child :: "nat gen_sem" where
  "gen_child g inp t =
     (case inp of
        Throw x \<Rightarrow> (Raised x, g, t)
      | Send v \<Rightarrow>
          if g = 0
          then (case Timeout_init 0 10 PyNone t of
                  (Return r, t') \<Rightarrow> (Yielded (PyObj r), 1, t')
                | (Raise x, t') \<Rightarrow> (Raised x, g, t'))
          else (Raised (Exc ''StopIteration'' [PyStr ''done''] None), g, t))"

text \<open>Process 0 waits in state 1; event 1 is processed and has failed.\<close>

definition store_wait :: "nat store" where
  "store_wait =
     \<lparr>heap = [(blank C_Process 0)\<lparr>generator := Some 1, target := PyObj 1\<rparr>,
              (blank C_Event 0)\<lparr>value' := Val (PyExc (ValueError ''boom'')), ok := Some False,
                                callbacks := None\<rparr>],
      envs = (\<lambda>_. env0)\<rparr>"

text \<open>Process 0 waits in state 1 for the timeout 1, which is processed.\<close>

definition store_join :: "nat store" where
  "store_join =
     \<lparr>heap = [(blank C_Process 0)\<lparr>generator := Some 1, target := PyObj 1\<rparr>,
              (blank C_Timeout 0)\<lparr>value' := Val PyNone, ok := Some True, callbacks := None\<rparr>],
      envs = (\<lambda>_. env0)\<rparr>"

text \<open>The store after \<^verbatim>\<open>Process(env, generator)\<close> on the empty store.\<close>

definition store_start :: "nat store" where
  "store_start = snd (Process_init 0 (Inr 0) store0)"

text \<open>
  Timeouts 0 and 2 are processed, event 1 is pending; condition 3 is over 1 and 2, and
  condition 4, over 0, 3 and 0 again, has succeeded and is being processed.
\<close>

definition store_nested :: "nat store" where
  "store_nested =
     \<lparr>heap = [(blank C_Timeout 0)\<lparr>value' := Val (PyInt 10), ok := Some True, callbacks := None\<rparr>,
              blank C_Event 0,
              (blank C_Timeout 0)\<lparr>value' := Val (PyInt 30), ok := Some True, callbacks := None\<rparr>,
              (blank C_AnyOf 0)\<lparr>evaluate := Condition_any_events, events := [1, 2],
                 callbacks := Some [CollectValues 3, Check 4]\<rparr>,
              (blank C_AllOf 0)\<lparr>evaluate := Condition_all_events, events := [0, 3, 0],
                 callbacks := None, value' := Val PyNone, ok := Some True\<rparr>],
      envs = (\<lambda>_. env0)\<rparr>"

text \<open>
  The built-in exception classes and one class of the user,
  \<^verbatim>\<open>class PairError(Exception): def __init__(self, a, b): super().__init__(a)\<close>, whose
  instances keep one argument where the constructor wants two.
\<close>

definition example_classes :: class_sem where
  "example_classes c args =
     (if c = ''PairError''
      then (case args of
              [a, b] \<Rightarrow> Return [a]
            | _ \<Rightarrow> Raise (TypeError ''__init__() missing 1 required positional argument''))
      else Return args)"





section \<open>Properties\<close>

subsection \<open>The store operations\<close>

lemma heap_upd: "heap (upd r f s) = (heap s)[r := f (heap s ! r)]"
  by (simp add: upd_def)

lemma envs_upd: "envs (upd r f s) = envs s"
  by (simp add: upd_def)

lemma heap_schedule: "heap (schedule e r p d s) = heap s"
  by (simp add: schedule_def Let_def)

lemma heap_set_active: "heap (set_active e a s) = heap s"
  by (simp add: set_active_def)

lemma heap_leave_loop: "heap (leave_loop self ev s) = (heap s)[self := (heap s ! self)\<lparr>target := ev\<rparr>]"
  by (simp add: leave_loop_def Let_def heap_set_active heap_upd)


subsection \<open>Conditions over no events\<close>

text \<open>
  C1. The claim: a condition constructed over an empty list of sub-events is triggered with
  \<open>ok = true\<close> before the constructor returns. Both predicates hold of the empty list and
  the count 0, but with no sub-event the constructor's loops never call \<^verbatim>\<open>_check\<close>, the only
  caller of the predicate: the new condition is returned pending, \<open>ok\<close> unassigned, with
  \<^verbatim>\<open>_collect_values\<close> as its only callback, and nothing is scheduled.
\<close>

theorem Condition_init_empty_stays_pending:
  "Condition_any_events [] 0 \<and> Condition_all_events [] 0 \<and>
   (\<exists>s' c. Condition_init k e ev_fn [] s = (Return (length (heap s)), s') \<and>
      heap s' = heap s @ [c] \<and> value' c = PENDING \<and> \<not> triggered c \<and> ok c = None \<and>
      callbacks c = Some [CollectValues (length (heap s))] \<and> count c = 0 \<and>
      envs s' = envs s)"
  by (simp add: Condition_init_def Condition_any_events_def Condition_all_events_def
      alloc_def upd_def blank_def triggered_def Let_def)

subsection \<open>Triggered events\<close>

text \<open>Evaluating the interpolation of a message.\<close>

lemma format_raises_numeral:
  "format_raises (numeral k) s c = format_step (format_raises (pred_numeral k) s) s c"
  by (simp add: numeral_eq_Suc)

lemma formatted_pair:
  "formatted s (PyTuple [a, b]) x =
     TypeError ''not all arguments converted during string formatting''"
  by (simp add: formatted_def recursion_limit_def format_raises_numeral format_step_def)






lemma outcome_kept_schedule:
  "outcome_kept r s s1 \<Longrightarrow> outcome_kept r s (schedule e q p d s1)"
  by (simp add: outcome_kept_def heap_schedule)












subsection \<open>Failure forwarding in conditions\<close>

text \<open>
  C4. \<^verbatim>\<open>_check\<close> on a pending condition with a sub-event that has failed with an error
  \<open>x\<close> returns with the sub-event defused and the condition failed with \<open>x\<close>: \<open>ok\<close> is
  false, the value is \<open>x\<close>, the count is one more, and the condition is the one entry added
  to its environment's queue. \<^verbatim>\<open>_check\<close> on a condition that is already triggered returns
  with the store unchanged, whatever the sub-event.
\<close>

theorem Condition_check_failure:
  "lookup s self = Some c \<Longrightarrow>
     (value' c = PENDING \<and> lookup s event = Some ev \<and> ok ev = Some False \<and>
      value' ev = Val (PyExc x) \<longrightarrow>
        (\<exists>s'. Condition_check self event s = (Return (), s') \<and>
           length (heap s') = length (heap s) \<and>
           defused (heap s' ! event) = Some True \<and>
           ok (heap s' ! self) = Some False \<and>
           value' (heap s' ! self) = Val (PyExc x) \<and>
           count (heap s' ! self) = count c + 1 \<and>
           envs s' = (envs s)(env c := (envs s (env c))\<lparr>
              queue := queue (envs s (env c)) @
                 [(now (envs s (env c)), NORMAL, eid (envs s (env c)), self)],
              eid := Suc (eid (envs s (env c)))\<rparr>))) \<and>
     (value' c \<noteq> PENDING \<longrightarrow> Condition_check self event s = (Return (), s))"
  by (auto simp: Condition_check_def Event_fail_def lookup_def upd_def schedule_def Let_def
      is_exception_def nth_list_update split: if_splits)

theorem Condition_check_failure_witness:
  "lookup store_cond 2 = Some (heap store_cond ! 2) \<and>
   value' (heap store_cond ! 2) = PENDING \<and>
   lookup store_cond 1 = Some (heap store_cond ! 1) \<and>
   ok (heap store_cond ! 1) = Some False \<and>
   value' (heap store_cond ! 1) = Val (PyExc (ValueError ''boom'')) \<and>
   fst (Condition_check 2 1 store_cond) = Return () \<and>
   defused (heap (snd (Condition_check 2 1 store_cond)) ! 1) = Some True \<and>
   ok (heap (snd (Condition_check 2 1 store_cond)) ! 2) = Some False \<and>
   value' (heap (snd (Condition_check 2 1 store_cond)) ! 2) = Val (PyExc (ValueError ''boom'')) \<and>
   lookup store_cond 3 = Some (heap store_cond ! 3) \<and>
   value' (heap store_cond ! 3) \<noteq> PENDING \<and>
   Condition_check 3 1 store_cond = (Return (), store_cond)"
  using Condition_check_failure [of store_cond 2 "heap store_cond ! 2" 1 "heap store_cond ! 1"
      "ValueError ''boom''"]
    Condition_check_failure [of store_cond 3 "heap store_cond ! 3" 1 "heap store_cond ! 1"
      "ValueError ''boom''"]
  by (auto simp: store_cond_def lookup_def blank_def)

subsection \<open>Interrupts\<close>

text \<open>
  C7. \<^verbatim>\<open>process.interrupt(cause)\<close> raises exactly when the process has terminated or is the
  active process of its environment; what it raises is a \<^verbatim>\<open>RuntimeError\<close>, and then the
  environments, with their queues, are as before. Otherwise it returns and the new
  interruption is the one entry added to the queue, at the current time with priority
  \<open>URGENT\<close>.
\<close>

theorem Process_interrupt_errors:
  "lookup s p = Some pr \<Longrightarrow>
     ((\<exists>x. fst (Process_interrupt p cause s) = Raise x) \<longleftrightarrow>
        (value' pr \<noteq> PENDING \<or> active_proc (envs s (env pr)) = Some p)) \<and>
     (\<forall>x. fst (Process_interrupt p cause s) = Raise x \<longrightarrow>
        etype x = ''RuntimeError'' \<and> envs (snd (Process_interrupt p cause s)) = envs s) \<and>
     (value' pr = PENDING \<and> active_proc (envs s (env pr)) \<noteq> Some p \<longrightarrow>
        fst (Process_interrupt p cause s) = Return () \<and>
        queue (envs (snd (Process_interrupt p cause s)) (env pr)) =
          queue (envs s (env pr)) @
            [(now (envs s (env pr)), URGENT, eid (envs s (env pr)), length (heap s))])"
  by (auto simp: Process_interrupt_def Interruption_init_def lookup_def alloc_def upd_def
       schedule_def Let_def nth_append RuntimeError_def blank_def split: if_splits)

theorem Process_interrupt_errors_witness:
  "lookup store_procs 1 = Some (heap store_procs ! 1) \<and>
   value' (heap store_procs ! 1) \<noteq> PENDING \<and>
   fst (Process_interrupt 1 PyNone store_procs) =
     Raise (RuntimeError ''has terminated and cannot be interrupted.'') \<and>
   envs (snd (Process_interrupt 1 PyNone store_procs)) = envs store_procs \<and>
   lookup store_procs 0 = Some (heap store_procs ! 0) \<and>
   active_proc (envs store_procs (env (heap store_procs ! 0))) = Some 0 \<and>
   fst (Process_interrupt 0 PyNone store_procs) =
     Raise (RuntimeError ''A process is not allowed to interrupt itself.'') \<and>
   envs (snd (Process_interrupt 0 PyNone store_procs)) = envs store_procs \<and>
   lookup store_procs 2 = Some (heap store_procs ! 2) \<and>
   value' (heap store_procs ! 2) = PENDING \<and>
   active_proc (envs store_procs (env (heap store_procs ! 2))) \<noteq> Some 2 \<and>
   fst (Process_interrupt 2 PyNone store_procs) = Return () \<and>
   queue (envs (snd (Process_interrupt 2 PyNone store_procs)) 0) = [(5, URGENT, 0, 3)]"
  using Process_interrupt_errors [of store_procs 1 "heap store_procs ! 1" PyNone]
    Process_interrupt_errors [of store_procs 0 "heap store_procs ! 0" PyNone]
    Process_interrupt_errors [of store_procs 2 "heap store_procs ! 2" PyNone]
  by (simp add: store_procs_def env0_def lookup_def blank_def Process_interrupt_def
      Interruption_init_def alloc_def upd_def schedule_def Let_def)

subsection \<open>Timeouts\<close>

text \<open>
  C8. A negative delay makes \<^verbatim>\<open>Timeout\<close> raise \<^verbatim>\<open>ValueError\<close> with the store unchanged.
  With a delay of at least 0 the constructor returns a new object that is triggered, with
  \<open>ok = true\<close> and the given value, and the only change to the environments is one more
  queue entry for it, at \<open>now + delay\<close> with priority \<open>NORMAL\<close>.
\<close>

theorem Timeout_init_delay:
  "(dl < 0 \<longrightarrow> Timeout_init e dl v s = (Raise (ValueError ''Negative delay''), s)) \<and>
   (0 \<le> dl \<longrightarrow>
      (\<exists>s' t. Timeout_init e dl v s = (Return (length (heap s)), s')
           \<and> heap s' = heap s @ [t]
           \<and> cls t = C_Timeout \<and> env t = e \<and> triggered t \<and> ok t = Some True \<and> value' t = Val v
           \<and> callbacks t = Some [] \<and> delay t = dl
           \<and> envs s' = (envs s)(e := (envs s e)\<lparr>
                 queue := queue (envs s e) @
                   [(now (envs s e) + dl, NORMAL, eid (envs s e), length (heap s))],
                 eid := Suc (eid (envs s e))\<rparr>)))"
  by (simp add: Timeout_init_def alloc_def schedule_def triggered_def blank_def Let_def)

theorem Timeout_init_delay_witness:
  "(-1::int) < 0 \<and> Timeout_init 0 (-1) PyNone store0 = (Raise (ValueError ''Negative delay''), store0)
   \<and> (0::int) \<le> 3 \<and> fst (Timeout_init 0 3 (PyInt 7) store0) = Return 0
   \<and> value' (heap (snd (Timeout_init 0 3 (PyInt 7) store0)) ! 0) = Val (PyInt 7)
   \<and> queue (envs (snd (Timeout_init 0 3 (PyInt 7) store0)) 0) = [(8, NORMAL, 0, 0)]"
  using Timeout_init_delay [of "-1" 0 PyNone store0] Timeout_init_delay [of 3 0 "PyInt 7" store0]
  by (auto simp: store0_def env0_def)

subsection \<open>Processes\<close>

text \<open>
  C9. The claim: \<^verbatim>\<open>Process\<close> applied to an argument that is not a generator raises
  \<^verbatim>\<open>ValueError\<close> and leaves the store as it was. The store is left as it was for every such
  argument, but the message is built with \<^verbatim>\<open>'%s is not a generator.' % generator\<close>: for the
  tuple \<^verbatim>\<open>(1, 2)\<close> the interpolation raises \<^verbatim>\<open>TypeError\<close>, and that is the error of the
  call. In general the call raises the error of the interpolation when there is one, and
  \<^verbatim>\<open>ValueError\<close> otherwise.
\<close>

theorem Process_init_tuple_argument:
  "Process_init e (Inl (PyTuple [PyInt 1, PyInt 2])) s =
     (Raise (TypeError ''not all arguments converted during string formatting''), s) \<and>
   Process_init e (Inl v) s = (Raise (formatted s v (ValueError ''is not a generator.'')), s)"
  by (simp add: Process_init_def isgenerator_def formatted_pair)

subsection \<open>The process driver\<close>

text \<open>What the driver itself does to the store never clears a \<^verbatim>\<open>defused\<close> flag.\<close>

lemma defused_in_upd:
  "defused_in r s \<Longrightarrow> (\<And>x. defused x = Some True \<Longrightarrow> defused (f x) = Some True) \<Longrightarrow>
     defused_in r (upd q f s)"
  by (cases "q = r") (auto simp: defused_in_def heap_upd)

lemma defused_in_call_generator:
  assumes "gen_preserves G (defused_in r)" and "defused_in r s"
  shows "defused_in r (snd (call_generator G self inp s))"
proof (cases "lookup s self")
  case None
  then show ?thesis using assms by (simp add: call_generator_def)
next
  case (Some me)
  show ?thesis
  proof (cases "generator me")
    case None
    then show ?thesis using assms Some by (simp add: call_generator_def)
  next
    case (Some g)
    obtain res g' t where G: "G g inp s = (res, g', t)" by (cases "G g inp s")
    have "defused_in r (snd (snd (G g inp s)))"
      using assms by (simp add: gen_preserves_def)
    then have "defused_in r t" using G by simp
    then have "defused_in r (upd self (\<lambda>x. x\<lparr>generator := Some g'\<rparr>) t)"
      by (rule defused_in_upd) simp
    then show ?thesis using Some \<open>lookup s self = Some me\<close> G
      by (simp add: call_generator_def)
  qed
qed

lemma defused_in_get_next:
  assumes "gen_preserves G (defused_in r)"
    and "defused_in r s \<or> (\<exists>ev. lookup s r = Some ev \<and> ok ev = Some False \<and> event = r)"
  shows "defused_in r (snd (get_next G self event s))"
proof (cases "lookup s event")
  case None
  then show ?thesis using assms(2) by (auto simp: get_next_def)
next
  case (Some ev)
  show ?thesis
  proof (cases "ok ev")
    case None
    then show ?thesis using assms(2) Some by (auto simp: get_next_def)
  next
    case (Some b)
    show ?thesis
    proof (cases b)
      case True
      then have "defused_in r s" using assms(2) Some \<open>lookup s event = Some ev\<close> by auto
      then show ?thesis using True Some \<open>lookup s event = Some ev\<close> assms(1)
        by (simp add: get_next_def defused_in_call_generator)
    next
      case False
      let ?s1 = "upd event (\<lambda>x. x\<lparr>defused := Some True\<rparr>) s"
      have d: "defused_in r ?s1"
        using assms(2) \<open>lookup s event = Some ev\<close>
        by (cases "event = r") (auto simp: defused_in_def heap_upd lookup_def split: if_splits)
      then have "defused_in r (snd (call_generator G self inp ?s1))" for inp
        using assms(1) by (rule defused_in_call_generator[rotated])
      then show ?thesis using False Some \<open>lookup s event = Some ev\<close> d
        by (simp add: get_next_def Let_def split: slot.splits pyval.splits)
    qed
  qed
qed

lemma defused_in_schedule: "defused_in r s \<Longrightarrow> defused_in r (schedule e q p d s)"
  by (simp add: defused_in_def heap_schedule)

lemma defused_in_leave_loop: "defused_in r s \<Longrightarrow> defused_in r (leave_loop self ev s)"
  by (cases "self = r") (auto simp: defused_in_def heap_leave_loop)

lemma defused_in_set_active: "defused_in r s \<Longrightarrow> defused_in r (set_active e a s)"
  by (simp add: defused_in_def heap_set_active)

lemma defused_in_resume_loop:
  assumes "gen_preserves G (defused_in r)"
  shows "resume_loop G K fuel self event s = Some (res, s') \<Longrightarrow>
     defused_in r s \<or> (\<exists>ev. lookup s r = Some ev \<and> ok ev = Some False \<and> event = r) \<Longrightarrow>
     defused_in r s'"
proof (induction fuel arbitrary: event s)
  case 0
  then show ?case by simp
next
  case (Suc fuel)
  obtain gr s1 where gn: "get_next G self event s = (gr, s1)"
    by (cases "get_next G self event s")
  have d1: "defused_in r s1"
    using defused_in_get_next [OF assms Suc.prems(2), of self] gn by simp
  show ?case
  proof (cases gr)
    case (Raised e)
    then show ?thesis using Suc.prems(1) gn d1
      by (auto simp: Let_def intro!: defused_in_leave_loop defused_in_schedule defused_in_upd
          split: if_splits result.splits)
  next
    case (Yielded y)
    show ?thesis
    proof (cases y)
      case (PyObj q)
      show ?thesis
      proof (cases "lookup s1 q")
        case None
        then show ?thesis using Suc.prems(1) gn d1 Yielded PyObj by auto
      next
        case (Some ev)
        show ?thesis
        proof (cases "callbacks ev")
          case None
          then have "resume_loop G K fuel self q s1 = Some (res, s')"
            using Suc.prems(1) gn Yielded PyObj Some by simp
          then show ?thesis using Suc.IH d1 by blast
        next
          case (Some cbs)
          then show ?thesis using Suc.prems(1) gn d1 Yielded PyObj \<open>lookup s1 q = Some ev\<close>
            by (auto intro!: defused_in_leave_loop defused_in_upd)
        qed
      qed
    qed (use Suc.prems(1) gn d1 Yielded in auto)
  qed
qed

text \<open>
  C5. Let the driver resume an existing process with an event whose \<open>ok\<close> is false.
  When the event's value is an error \<open>x\<close>, the body of the \<^verbatim>\<open>try\<close> is the generator's
  \<^verbatim>\<open>throw(x)\<close> run in the store in which the event's \<^verbatim>\<open>defused\<close> flag is already set. And
  when the process functions themselves never clear that flag, the event is defused in the
  store that any finished resume step leaves, however the step ends.
\<close>

theorem resume_defuses_before_throw:
  "lookup s self = Some p \<Longrightarrow> lookup s event = Some ev \<Longrightarrow> ok ev = Some False \<Longrightarrow>
     (\<forall>g x. generator p = Some g \<and> value' ev = Val (PyExc x) \<longrightarrow>
        defused_in event (upd event (\<lambda>x. x\<lparr>defused := Some True\<rparr>) s) \<and>
        get_next G self event s =
          (case G g (Throw x) (upd event (\<lambda>x. x\<lparr>defused := Some True\<rparr>) s) of
             (r, g', t) \<Rightarrow> (r, upd self (\<lambda>x. x\<lparr>generator := Some g'\<rparr>) t))) \<and>
     (gen_preserves G (defused_in event) \<longrightarrow>
        (\<forall>fuel res s'. Process_resume G K fuel self event s = Some (res, s') \<longrightarrow>
           defused_in event s'))"
proof (intro conjI allI impI)
  fix g x
  assume h: "lookup s event = Some ev" "ok ev = Some False" "lookup s self = Some p"
    "generator p = Some g \<and> value' ev = Val (PyExc x)"
  show "defused_in event (upd event (\<lambda>x. x\<lparr>defused := Some True\<rparr>) s)"
    using h(1) by (auto simp: defused_in_def heap_upd lookup_def split: if_splits)
  show "get_next G self event s =
          (case G g (Throw x) (upd event (\<lambda>x. x\<lparr>defused := Some True\<rparr>) s) of
             (r, g', t) \<Rightarrow> (r, upd self (\<lambda>x. x\<lparr>generator := Some g'\<rparr>) t))"
    using h by (cases "self = event")
      (auto simp: get_next_def call_generator_def Let_def lookup_def heap_upd split: if_splits)
next
  fix fuel res s'
  assume h: "lookup s event = Some ev" "ok ev = Some False"
    "gen_preserves G (defused_in event)"
    "Process_resume G K fuel self event s = Some (res, s')"
    and me: "lookup s self = Some p"
  let ?s0 = "set_active (env p) (Some self) s"
  have r: "resume_loop G K fuel self event ?s0 = Some (res, s')"
    using h(4) me by (simp add: Process_resume_def)
  have "lookup ?s0 event = Some ev"
    using h(1) by (simp add: lookup_def heap_set_active split: if_splits)
  then show "defused_in event s'"
    using defused_in_resume_loop [OF h(3) r] h(2) by blast
qed

theorem resume_defuses_before_throw_witness:
  "lookup store_wait 1 = Some (heap store_wait ! 1) \<and> ok (heap store_wait ! 1) = Some False \<and>
   gen_preserves gen_child (defused_in 1) \<and>
   Process_resume gen_child example_classes 1 0 1 store_wait \<noteq> None \<and>
   fst (the (Process_resume gen_child example_classes 1 0 1 store_wait)) = Return () \<and>
   defused (heap (snd (the (Process_resume gen_child example_classes 1 0 1 store_wait))) ! 1) = Some True"
proof -
  have gp: "gen_preserves gen_child (defused_in 1)"
    by (auto simp: gen_preserves_def gen_child_def defused_in_def Timeout_init_def alloc_def
        schedule_def Let_def nth_append split: gen_input.splits)
  have l: "lookup store_wait 1 = Some (heap store_wait ! 1)"
    by (simp add: store_wait_def lookup_def)
  have m: "lookup store_wait 0 = Some (heap store_wait ! 0)"
    by (simp add: store_wait_def lookup_def)
  have k: "ok (heap store_wait ! 1) = Some False"
    by (simp add: store_wait_def blank_def)
  have r: "Process_resume gen_child example_classes 1 0 1 store_wait \<noteq> None"
    by (simp add: Process_resume_def store_wait_def lookup_def blank_def get_next_def
        call_generator_def gen_child_def example_classes_def ValueError_def set_active_def upd_def Let_def)
  have ret: "fst (the (Process_resume gen_child example_classes 1 0 1 store_wait)) = Return ()"
    by (simp add: Process_resume_def store_wait_def lookup_def blank_def get_next_def
        call_generator_def gen_child_def example_classes_def ValueError_def set_active_def upd_def Let_def)
  show ?thesis
    using resume_defuses_before_throw [OF m l k, of gen_child] gp r ret l k
    by (auto simp: defused_in_def)
qed







text \<open>A process that is alive stays so until the driver itself ends it.\<close>

lemma alive_in_upd:
  "alive_in r s \<Longrightarrow> (\<And>x. value' (f x) = value' x) \<Longrightarrow> alive_in r (upd q f s)"
  by (cases "q = r") (auto simp: alive_in_def heap_upd)

lemma alive_in_call_generator:
  assumes "gen_preserves G (alive_in r)" and "alive_in r s"
  shows "alive_in r (snd (call_generator G self inp s))"
proof (cases "lookup s self")
  case None
  then show ?thesis using assms by (simp add: call_generator_def)
next
  case (Some me)
  show ?thesis
  proof (cases "generator me")
    case None
    then show ?thesis using assms Some by (simp add: call_generator_def)
  next
    case (Some g)
    obtain res g' t where G: "G g inp s = (res, g', t)" by (cases "G g inp s")
    have "alive_in r (snd (snd (G g inp s)))"
      using assms by (simp add: gen_preserves_def)
    then have "alive_in r t" using G by simp
    then have "alive_in r (upd self (\<lambda>x. x\<lparr>generator := Some g'\<rparr>) t)"
      by (rule alive_in_upd) simp
    then show ?thesis using Some \<open>lookup s self = Some me\<close> G
      by (simp add: call_generator_def)
  qed
qed

lemma alive_in_get_next:
  assumes "gen_preserves G (alive_in r)" and "alive_in r s"
  shows "alive_in r (snd (get_next G self event s))"
proof -
  have "alive_in r (upd event (\<lambda>x. x\<lparr>defused := Some True\<rparr>) s)"
    using assms(2) by (rule alive_in_upd) simp
  then show ?thesis using assms
    by (auto simp: get_next_def Let_def alive_in_call_generator
        split: option.splits bool.splits slot.splits pyval.splits)
qed

lemma target_settled_resume_loop:
  assumes "gen_preserves G (alive_in self)"
  shows "resume_loop G K fuel self event s = Some (Return (), s') \<Longrightarrow> alive_in self s \<Longrightarrow>
     target_settled self s'"
proof (induction fuel arbitrary: event s)
  case 0
  then show ?case by simp
next
  case (Suc fuel)
  obtain gr s1 where gn: "get_next G self event s = (gr, s1)"
    by (cases "get_next G self event s")
  have a1: "alive_in self s1"
    using alive_in_get_next [OF assms Suc.prems(2), of self event] gn by simp
  show ?case
  proof (cases gr)
    case (Raised e)
    then show ?thesis using Suc.prems(1) gn a1
      by (auto simp: Let_def target_settled_def is_alive_def alive_in_def heap_leave_loop
          heap_schedule heap_upd split: if_splits result.splits)
  next
    case (Yielded y)
    show ?thesis
    proof (cases y)
      case (PyObj q)
      show ?thesis
      proof (cases "lookup s1 q")
        case None
        then show ?thesis using Suc.prems(1) gn Yielded PyObj by auto
      next
        case (Some ev)
        show ?thesis
        proof (cases "callbacks ev")
          case None
          then have "resume_loop G K fuel self q s1 = Some (Return (), s')"
            using Suc.prems(1) gn Yielded PyObj Some by simp
          then show ?thesis using Suc.IH a1 by blast
        next
          case (Some cbs)
          then have s': "s' = leave_loop self (PyObj q)
              (upd q (\<lambda>x. x\<lparr>callbacks := Some (cbs @ [Resume self])\<rparr>) s1)"
            using Suc.prems(1) gn Yielded PyObj \<open>lookup s1 q = Some ev\<close> by simp
          have q: "q < length (heap s1)"
            using \<open>lookup s1 q = Some ev\<close> by (simp add: lookup_def split: if_splits)
          show ?thesis using a1 q unfolding s'
            by (cases "q = self")
              (auto simp: target_settled_def is_alive_def alive_in_def heap_leave_loop heap_upd
                lookup_def)
        qed
      qed
    qed (use Suc.prems(1) gn Yielded in auto)
  qed
qed

text \<open>
  C2, as stated, fails: when the generator ends, the driver assigns \<^verbatim>\<open>None\<close> to
  \<^verbatim>\<open>_target\<close>, as the docstring of \<^verbatim>\<open>Process.target\<close> says. In \<open>store_join\<close> the process 0
  is resumed by its processed timeout and returns: it is dead, and its target is
  \<^verbatim>\<open>None\<close>, not the process.
\<close>

theorem resume_sets_target_none_when_dead:
  "Process_resume gen_child example_classes 1 0 1 store_join \<noteq> None \<and>
   fst (the (Process_resume gen_child example_classes 1 0 1 store_join)) = Return () \<and>
   \<not> is_alive (heap (snd (the (Process_resume gen_child example_classes 1 0 1 store_join))) ! 0) \<and>
   value' (heap (snd (the (Process_resume gen_child example_classes 1 0 1 store_join))) ! 0) = Val (PyStr ''done'') \<and>
   target (heap (snd (the (Process_resume gen_child example_classes 1 0 1 store_join))) ! 0) = PyNone \<and>
   target (heap (snd (the (Process_resume gen_child example_classes 1 0 1 store_join))) ! 0) \<noteq> PyObj 0"
  by (simp add: Process_resume_def store_join_def lookup_def blank_def get_next_def
      call_generator_def gen_child_def example_classes_def ValueError_def set_active_def upd_def Let_def leave_loop_def
      schedule_def is_alive_def env0_def)

text \<open>
  C2, amended: a new process is alive and its target is its \<^verbatim>\<open>Initialize\<close> event, whose
  only callback is the process's \<^verbatim>\<open>_resume\<close>. After a resume step of a process that was
  alive, run with process functions that do not trigger the process object themselves, the
  target of a process that is no longer alive is \<^verbatim>\<open>None\<close>, and the target of a process
  that is still alive is the event it yielded, whose last callback is its \<^verbatim>\<open>_resume\<close>.
\<close>

theorem process_target:
  "(\<exists>s'. Process_init e (Inr g) s = (Return (length (heap s)), s') \<and>
      is_alive (heap s' ! length (heap s)) \<and>
      target (heap s' ! length (heap s)) = PyObj (Suc (length (heap s))) \<and>
      lookup s' (Suc (length (heap s))) =
        Some ((blank C_Initialize e)\<lparr>callbacks := Some [Resume (length (heap s))],
           value' := Val PyNone, ok := Some True\<rparr>)) \<and>
   (lookup s self = Some p \<and> is_alive p \<and> gen_preserves G (alive_in self) \<and>
    Process_resume G K fuel self event s = Some (Return (), s') \<longrightarrow>
      self < length (heap s') \<and>
      (\<not> is_alive (heap s' ! self) \<longrightarrow> target (heap s' ! self) = PyNone) \<and>
      (is_alive (heap s' ! self) \<longrightarrow>
         (\<exists>r ev cbs. target (heap s' ! self) = PyObj r \<and> lookup s' r = Some ev \<and>
            callbacks ev = Some (cbs @ [Resume self]))))"
proof (intro conjI impI)
  show "\<exists>s'. Process_init e (Inr g) s = (Return (length (heap s)), s') \<and>
      is_alive (heap s' ! length (heap s)) \<and>
      target (heap s' ! length (heap s)) = PyObj (Suc (length (heap s))) \<and>
      lookup s' (Suc (length (heap s))) =
        Some ((blank C_Initialize e)\<lparr>callbacks := Some [Resume (length (heap s))],
           value' := Val PyNone, ok := Some True\<rparr>)"
    by (simp add: Process_init_def isgenerator_def Initialize_init_def alloc_def upd_def
        schedule_def lookup_def is_alive_def blank_def Let_def nth_append)
next
  assume h: "lookup s self = Some p \<and> is_alive p \<and> gen_preserves G (alive_in self) \<and>
    Process_resume G K fuel self event s = Some (Return (), s')"
  let ?s0 = "set_active (env p) (Some self) s"
  have r: "resume_loop G K fuel self event ?s0 = Some (Return (), s')"
    using h by (auto simp: Process_resume_def)
  have a: "alive_in self ?s0"
    using h by (auto simp: alive_in_def is_alive_def lookup_def heap_set_active split: if_splits)
  have ts: "target_settled self s'"
    using target_settled_resume_loop [OF _ r a] h by blast
  show "self < length (heap s')"
    using ts by (simp add: target_settled_def)
  show "\<not> is_alive (heap s' ! self) \<Longrightarrow> target (heap s' ! self) = PyNone"
    using ts by (simp add: target_settled_def)
  show "is_alive (heap s' ! self) \<Longrightarrow>
      \<exists>r ev cbs. target (heap s' ! self) = PyObj r \<and> lookup s' r = Some ev \<and>
            callbacks ev = Some (cbs @ [Resume self])"
    using ts by (simp add: target_settled_def)
qed

theorem process_target_witness:
  "lookup store_join 0 = Some (heap store_join ! 0) \<and> is_alive (heap store_join ! 0) \<and>
   gen_preserves gen_child (alive_in 0) \<and>
   fst (the (Process_resume gen_child example_classes 1 0 1 store_join)) = Return () \<and>
   \<not> is_alive (heap (snd (the (Process_resume gen_child example_classes 1 0 1 store_join))) ! 0) \<and>
   target (heap (snd (the (Process_resume gen_child example_classes 1 0 1 store_join))) ! 0) = PyNone \<and>
   lookup store_start 0 = Some (heap store_start ! 0) \<and> is_alive (heap store_start ! 0) \<and>
   fst (the (Process_resume gen_child example_classes 1 0 1 store_start)) = Return () \<and>
   is_alive (heap (snd (the (Process_resume gen_child example_classes 1 0 1 store_start))) ! 0) \<and>
   target (heap (snd (the (Process_resume gen_child example_classes 1 0 1 store_start))) ! 0) = PyObj 2 \<and>
   callbacks (heap (snd (the (Process_resume gen_child example_classes 1 0 1 store_start))) ! 2) = Some [Resume 0]"
proof -
  have gp: "gen_preserves gen_child (alive_in 0)"
    by (auto simp: gen_preserves_def gen_child_def alive_in_def Timeout_init_def alloc_def
        schedule_def Let_def nth_append split: gen_input.splits)
  have st: "store_start =
     \<lparr>heap = [(blank C_Process 0)\<lparr>generator := Some 0, target := PyObj 1\<rparr>,
              (blank C_Initialize 0)\<lparr>callbacks := Some [Resume 0], value' := Val PyNone,
                 ok := Some True\<rparr>],
      envs = (\<lambda>_. env0)(0 := env0\<lparr>queue := [(5, URGENT, 0, 1)], eid := 1\<rparr>)\<rparr>"
    by (simp add: store_start_def Process_init_def isgenerator_def Initialize_init_def alloc_def
        upd_def schedule_def store0_def env0_def blank_def Let_def)
  obtain s1 where r1: "Process_resume gen_child example_classes 1 0 1 store_join = Some (Return (), s1)"
    by (simp add: Process_resume_def store_join_def lookup_def blank_def get_next_def
      call_generator_def gen_child_def example_classes_def ValueError_def set_active_def upd_def Let_def)
  obtain s2 where r2: "Process_resume gen_child example_classes 1 0 1 store_start = Some (Return (), s2)"
    by (simp add: st Process_resume_def lookup_def blank_def get_next_def
      call_generator_def gen_child_def example_classes_def ValueError_def set_active_def upd_def Let_def Timeout_init_def alloc_def
      schedule_def)
  have l1: "lookup store_join 0 = Some (heap store_join ! 0) \<and> is_alive (heap store_join ! 0)"
    by (simp add: store_join_def lookup_def is_alive_def blank_def)
  have l2: "lookup store_start 0 = Some (heap store_start ! 0) \<and> is_alive (heap store_start ! 0)"
    by (simp add: st lookup_def is_alive_def blank_def)
  have d1: "\<not> is_alive (heap (snd (the (Process_resume gen_child example_classes 1 0 1 store_join))) ! 0)"
    by (simp add: Process_resume_def store_join_def lookup_def blank_def get_next_def
      call_generator_def gen_child_def example_classes_def ValueError_def set_active_def upd_def Let_def leave_loop_def
      schedule_def is_alive_def)
  have d2: "target (heap (snd (the (Process_resume gen_child example_classes 1 0 1 store_start))) ! 0) = PyObj 2
     \<and> callbacks (heap (snd (the (Process_resume gen_child example_classes 1 0 1 store_start))) ! 2) = Some [Resume 0]"
    by (simp add: st Process_resume_def lookup_def blank_def get_next_def
      call_generator_def gen_child_def example_classes_def ValueError_def set_active_def upd_def Let_def Timeout_init_def alloc_def
      schedule_def leave_loop_def)
  show ?thesis
    using process_target [where s = store_join and self = 0 and p = "heap store_join ! 0"
        and G = gen_child and fuel = 1 and event = 1 and s' = s1]
      process_target [where s = store_start and self = 0 and p = "heap store_start ! 0"
        and G = gen_child and fuel = 1 and event = 1 and s' = s2]
      gp r1 r2 l1 l2 d1 d2
    by auto
qed


subsection \<open>The value of a condition\<close>

text \<open>
  Filling an ordered dictionary with the entries of the events \<open>ls\<close>, one after the other,
  gives the entries of \<open>insertion_order ls\<close>.
\<close>

lemma update_entry:
  "AList.update k (g k) (map (\<lambda>k. (k, g k)) ks) = map (\<lambda>k. (k, g k)) (insert_key k ks)"
  by (induction ks) (auto simp: insert_key_def)

lemma fold_update_entries:
  "fold (\<lambda>k. AList.update k (g k)) ls (map (\<lambda>k. (k, g k)) ks) =
     map (\<lambda>k. (k, g k)) (fold insert_key ls ks)"
  by (induction ls arbitrary: ks) (simp_all add: update_entry)

lemma odict_update_entries:
  "odict_update (map (\<lambda>k. (k, g k)) ks) (map (\<lambda>k. (k, g k)) ks1) =
     map (\<lambda>k. (k, g k)) (fold insert_key ks1 ks)"
proof -
  have "odict_update (map (\<lambda>k. (k, g k)) ks) (map (\<lambda>k. (k, g k)) ks1) =
      fold (\<lambda>k. AList.update k (g k)) ks1 (map (\<lambda>k. (k, g k)) ks)"
    by (simp add: odict_update_def fold_map comp_def)
  then show ?thesis by (simp add: fold_update_entries)
qed

lemma set_fold_insert_key: "set (fold insert_key ls ks) = set ls \<union> set ks"
  by (induction ls arbitrary: ks) (auto simp: insert_key_def)

lemma distinct_fold_insert_key: "distinct ks \<Longrightarrow> distinct (fold insert_key ls ks)"
  by (induction ls arbitrary: ks) (auto simp: insert_key_def)

lemma insert_key_fold: "fold insert_key (insert_key k a) ks = insert_key k (fold insert_key a ks)"
  by (auto simp: insert_key_def set_fold_insert_key)

lemma fold_insert_key_twice:
  "fold insert_key (fold insert_key ls a) ks = fold insert_key ls (fold insert_key a ks)"
  by (induction ls arbitrary: a) (simp_all add: insert_key_fold)

lemma fold_insertion_order: "fold insert_key (insertion_order ls) ks = fold insert_key ls ks"
  by (simp add: insertion_order_def fold_insert_key_twice)

lemma insertion_order_distinct_list:
  "distinct ls \<Longrightarrow> set ls \<inter> set ks = {} \<Longrightarrow> fold insert_key ls ks = ks @ ls"
  by (induction ls arbitrary: ks) (auto simp: insert_key_def)

lemma entry_of_fun: "entry_of s = (\<lambda>k. (k, value' (heap s ! k)))"
  by (simp add: entry_of_def fun_eq_iff)

text \<open>
  The loop of \<^verbatim>\<open>_get_values\<close> stops at the first error, and what it returns is the
  dictionary of the spec's contributors.
\<close>

lemma fold_step_Raise: "fold (get_values_step rec s) es (Raise x) = Raise x"
  by (induction es) (simp_all add: get_values_step_def)

lemma get_values_loop:
  assumes rec: "\<And>c d me. rec c = Return d \<Longrightarrow> lookup s c = Some me \<Longrightarrow>
      \<exists>ls. spec_contributors s (events me) ls \<and> d = map (entry_of s) (insertion_order ls)"
  shows "fold (get_values_step rec s) es (Return (map (entry_of s) ks)) = Return d \<Longrightarrow>
     \<exists>ls. spec_contributors s es ls \<and> d = map (entry_of s) (fold insert_key ls ks)"
proof (induction es arbitrary: ks)
  case Nil
  then show ?case by (auto intro: spec_contributors.no_events)
next
  case (Cons e es)
  let ?acc = "get_values_step rec s e (Return (map (entry_of s) ks))"
  have f: "fold (get_values_step rec s) es ?acc = Return d"
    using Cons.prems by simp
  obtain ev where ev: "lookup s e = Some ev"
    using f by (cases "lookup s e") (auto simp: get_values_step_def fold_step_Raise)
  have ve: "value' ev = value' (heap s ! e)"
    using ev by (auto simp: lookup_def split: if_splits)
  show ?case
  proof (cases "is_condition ev")
    case True
    obtain d1 where d1: "rec e = Return d1"
      using f ev True by (cases "rec e") (auto simp: get_values_step_def fold_step_Raise)
    obtain ls1 where ls1: "spec_contributors s (events ev) ls1"
      "d1 = map (entry_of s) (insertion_order ls1)"
      using rec [OF d1 ev] by blast
    have "?acc = Return (map (entry_of s) (fold insert_key ls1 ks))"
      using ev True d1 ls1(2) odict_update_entries [of "\<lambda>k. value' (heap s ! k)" ks "insertion_order ls1"]
      by (simp add: get_values_step_def entry_of_fun fold_insertion_order)
    then obtain ls2 where ls2: "spec_contributors s es ls2"
      "d = map (entry_of s) (fold insert_key ls2 (fold insert_key ls1 ks))"
      using Cons.IH f by fastforce
    have "spec_contributors s (e # es) (ls1 @ ls2)"
      using ev True ls1(1) ls2(1) by (rule spec_contributors.nested_condition)
    then show ?thesis using ls2(2) by (intro exI [of _ "ls1 @ ls2"]) simp
  next
    case False
    show ?thesis
    proof (cases "callbacks ev = None")
      case True
      have "?acc = Return (map (entry_of s) (insert_key e ks))"
        using ev False True ve update_entry [of e "\<lambda>k. value' (heap s ! k)" ks]
        by (simp add: get_values_step_def entry_of_fun)
      then obtain ls where ls: "spec_contributors s es ls"
        "d = map (entry_of s) (fold insert_key ls (insert_key e ks))"
        using Cons.IH f by fastforce
      have "spec_contributors s (e # es) (e # ls)"
        using ev False _ ls(1) by (rule spec_contributors.processed_event) (simp add: processed_def True)
      then show ?thesis using ls(2) by (intro exI [of _ "e # ls"]) simp
    next
      case nproc: False
      have "?acc = Return (map (entry_of s) ks)"
        using ev False nproc by (auto simp: get_values_step_def)
      then obtain ls where ls: "spec_contributors s es ls"
        "d = map (entry_of s) (fold insert_key ls ks)"
        using Cons.IH f by fastforce
      have "spec_contributors s (e # es) ls"
        using ev False _ ls(1) by (rule spec_contributors.waiting_event) (simp add: processed_def nproc)
      then show ?thesis using ls(2) by blast
    qed
  qed
qed

lemma get_values_contributors:
  "Condition_get_values depth s c = Return d \<Longrightarrow> lookup s c = Some me \<Longrightarrow>
     \<exists>ls. spec_contributors s (events me) ls \<and> d = map (entry_of s) (insertion_order ls)"
proof (induction depth arbitrary: c d me)
  case 0
  then show ?case by simp
next
  case (Suc depth)
  have "fold (get_values_step (Condition_get_values depth s) s) (events me)
      (Return (map (entry_of s) [])) = Return d"
    using Suc.prems by simp
  then show ?case
    using get_values_loop [of "Condition_get_values depth s" s "events me" "[]" d] Suc.IH
    by (simp add: insertion_order_def)
qed

text \<open>What the contributors are, by induction on the spec's reading.\<close>

lemma contributors_processed:
  "spec_contributors s es ls \<Longrightarrow> k \<in> set ls \<Longrightarrow>
     \<exists>e. lookup s k = Some e \<and> \<not> is_condition e \<and> processed e"
  by (induction rule: spec_contributors.induct) auto

lemma contributors_present:
  "spec_contributors s es ls \<Longrightarrow> e \<in> set es \<Longrightarrow> lookup s e = Some x \<Longrightarrow>
     \<not> is_condition x \<Longrightarrow> processed x \<Longrightarrow> e \<in> set ls"
  by (induction rule: spec_contributors.induct) auto

lemma contributors_nested:
  "spec_contributors s es ls \<Longrightarrow> e \<in> set es \<Longrightarrow> lookup s e = Some x \<Longrightarrow>
     is_condition x \<Longrightarrow> \<exists>ls1. spec_contributors s (events x) ls1 \<and> set ls1 \<subseteq> set ls"
  by (induction rule: spec_contributors.induct) auto

lemma lookup_upd:
  "lookup (upd r f s) e = (if e = r then map_option f (lookup s e) else lookup s e)"
  by (auto simp: lookup_def heap_upd)

lemma contributors_upd:
  assumes "\<And>x. cls (f x) = cls x" "\<And>x. callbacks (f x) = callbacks x"
    "\<And>x. events (f x) = events x"
  shows "spec_contributors (upd r f s) es ls \<Longrightarrow> spec_contributors s es ls"
proof (induction rule: spec_contributors.induct)
  case no_events
  show ?case by (rule spec_contributors.no_events)
next
  case (processed_event e ev es ls)
  then obtain ev0 where "lookup s e = Some ev0" "\<not> is_condition ev0" "processed ev0"
    using assms by (auto simp: lookup_upd is_condition_def processed_def split: if_splits)
  then show ?case using processed_event.IH by (rule spec_contributors.processed_event)
next
  case (waiting_event e ev es ls)
  then obtain ev0 where "lookup s e = Some ev0" "\<not> is_condition ev0" "\<not> processed ev0"
    using assms by (auto simp: lookup_upd is_condition_def processed_def split: if_splits)
  then show ?case using waiting_event.IH by (rule spec_contributors.waiting_event)
next
  case (nested_condition e ev ls1 es ls2)
  then obtain ev0 where "lookup s e = Some ev0" "is_condition ev0" "events ev0 = events ev"
    using assms by (auto simp: lookup_upd is_condition_def split: if_splits)
  then show ?case using nested_condition.IH
    by (auto intro: spec_contributors.nested_condition)
qed

text \<open>
  C6. Let \<^verbatim>\<open>_collect_values\<close> run on a condition with an event whose \<open>ok\<close> is true (the
  scheduler passes the condition itself), and let it return. Then the value of the
  condition is the dictionary with one entry for each event of \<open>insertion_order ls\<close>, in this
  order, from the event to its value, where \<open>ls\<close> are the contributors of the condition's
  sub-event list in the spec's reading: every key is a processed event that is not a
  condition; a sub-event that is not a condition is a key exactly when it is processed, so
  one that was never processed is absent; and in place of a sub-event that is a condition
  stand the contributors of its own sub-events.
\<close>

theorem collect_values_mapping:
  "lookup s self = Some me \<Longrightarrow> is_condition me \<Longrightarrow> lookup s event = Some ev \<Longrightarrow>
   ok ev = Some True \<Longrightarrow> Condition_collect_values depth self event s = (Return (), s') \<Longrightarrow>
     \<exists>ls. spec_contributors s (events me) ls \<and>
        value' (heap s' ! self) = Val (PyDict (map (entry_of s) (insertion_order ls))) \<and>
        distinct (insertion_order ls) \<and> set (insertion_order ls) = set ls \<and>
        (distinct ls \<longrightarrow> insertion_order ls = ls) \<and>
        (\<forall>k\<in>set ls. \<exists>e. lookup s k = Some e \<and> \<not> is_condition e \<and> processed e) \<and>
        (\<forall>e\<in>set (events me). \<forall>x. lookup s e = Some x \<and> \<not> is_condition x \<longrightarrow>
           (e \<in> set ls \<longleftrightarrow> processed x)) \<and>
        (\<forall>e\<in>set (events me). \<forall>x. lookup s e = Some x \<and> is_condition x \<longrightarrow>
           (\<exists>ls1. spec_contributors s (events x) ls1 \<and> set ls1 \<subseteq> set ls))"
proof -
  assume me: "lookup s self = Some me" and cond: "is_condition me"
    and ev: "lookup s event = Some ev" and ok: "ok ev = Some True"
    and run: "Condition_collect_values depth self event s = (Return (), s')"
  let ?s1 = "upd self (\<lambda>x. x\<lparr>value' := Val (PyDict [])\<rparr>) s"
  obtain d where d: "Condition_get_values depth ?s1 self = Return d"
    and s': "s' = upd self (\<lambda>x. x\<lparr>value' := Val (PyDict (odict_update [] d))\<rparr>) ?s1"
    using run ev ok
    by (cases "Condition_get_values depth ?s1 self")
      (auto simp: Condition_collect_values_def Let_def)
  have me1: "lookup ?s1 self = Some (me\<lparr>value' := Val (PyDict [])\<rparr>)"
    using me by (simp add: lookup_upd)
  obtain ls where ls1: "spec_contributors ?s1 (events me) ls"
    and dd: "d = map (entry_of ?s1) (insertion_order ls)"
    using get_values_contributors [OF d me1] by auto
  have ls: "spec_contributors s (events me) ls"
    using ls1 by (rule contributors_upd [rotated -1]) simp_all
  have proc: "\<forall>k\<in>set ls. \<exists>e. lookup s k = Some e \<and> \<not> is_condition e \<and> processed e"
    using contributors_processed [OF ls] by blast
  have set_io: "set (insertion_order ls) = set ls"
    by (simp add: insertion_order_def set_fold_insert_key)
  have "self \<notin> set ls"
    using proc me cond by auto
  then have "k \<in> set ls \<Longrightarrow> self \<noteq> k" for k
    by auto
  then have "\<forall>k\<in>set (insertion_order ls). entry_of ?s1 k = entry_of s k"
    using set_io by (simp add: entry_of_def heap_upd)
  then have d_s: "d = map (entry_of s) (insertion_order ls)"
    using dd by simp
  have "odict_update [] d = map (entry_of s) (insertion_order (insertion_order ls))"
    using odict_update_entries [of "\<lambda>k. value' (heap s ! k)" "[]" "insertion_order ls"]
    by (simp add: d_s entry_of_fun insertion_order_def)
  also have "insertion_order (insertion_order ls) = insertion_order ls"
    using fold_insertion_order [of ls "[]"] by (simp add: insertion_order_def)
  finally have od: "odict_update [] d = map (entry_of s) (insertion_order ls)" .
  have self_in: "self < length (heap s)"
    using me by (simp add: lookup_def split: if_splits)
  have v: "value' (heap s' ! self) = Val (PyDict (map (entry_of s) (insertion_order ls)))"
    using self_in by (simp add: s' heap_upd od)
  have dist: "distinct (insertion_order ls)"
    by (simp add: insertion_order_def distinct_fold_insert_key)
  have same: "distinct ls \<longrightarrow> insertion_order ls = ls"
    using insertion_order_distinct_list [of ls "[]"] by (simp add: insertion_order_def)
  have direct: "\<forall>e\<in>set (events me). \<forall>x. lookup s e = Some x \<and> \<not> is_condition x \<longrightarrow>
           (e \<in> set ls \<longleftrightarrow> processed x)"
    using contributors_present [OF ls] proc by fastforce
  have nested: "\<forall>e\<in>set (events me). \<forall>x. lookup s e = Some x \<and> is_condition x \<longrightarrow>
           (\<exists>ls1. spec_contributors s (events x) ls1 \<and> set ls1 \<subseteq> set ls)"
    using contributors_nested [OF ls] by blast
  show ?thesis
    using ls v dist set_io same proc direct nested by blast
qed

theorem collect_values_mapping_witness:
  "lookup store_nested 4 = Some (heap store_nested ! 4) \<and>
   is_condition (heap store_nested ! 4) \<and>
   ok (heap store_nested ! 4) = Some True \<and>
   fst (Condition_collect_values 2 4 4 store_nested) = Return () \<and>
   value' (heap (snd (Condition_collect_values 2 4 4 store_nested)) ! 4) =
     Val (PyDict [(0, Val (PyInt 10)), (2, Val (PyInt 30))])"
proof -
  have l: "lookup store_nested 4 = Some (heap store_nested ! 4)"
    by (simp add: store_nested_def lookup_def)
  have c: "is_condition (heap store_nested ! 4)"
    by (simp add: store_nested_def is_condition_def blank_def)
  have k: "ok (heap store_nested ! 4) = Some True"
    by (simp add: store_nested_def blank_def)
  have v: "Condition_collect_values 2 4 4 store_nested =
      (Return (), upd 4 (\<lambda>x. x\<lparr>value' := Val (PyDict [(0, Val (PyInt 10)), (2, Val (PyInt 30))])\<rparr>)
         store_nested)"
    by (simp add: Condition_collect_values_def numeral_2_eq_2 get_values_step_def
        odict_update_def store_nested_def lookup_def upd_def is_condition_def blank_def Let_def)
  have r: "fst (Condition_collect_values 2 4 4 store_nested) = Return ()"
    by (simp add: v)
  have d: "value' (heap (snd (Condition_collect_values 2 4 4 store_nested)) ! 4) =
     Val (PyDict [(0, Val (PyInt 10)), (2, Val (PyInt 30))])"
    unfolding v by (simp add: upd_def store_nested_def)
  show ?thesis
    using collect_values_mapping [OF l c l k v] l c k r d by blast
qed

end
